theory Spec2Isabelle
  imports Main "HOL-Library.Finite_Map"
begin

section \<open>The data of the package\<close>

text \<open>
  A shallow embedding of \<^verbatim>\<open>dial.go\<close>, a dialer that caches DNS lookups.

  Times (\<^verbatim>\<open>time.Time\<close>) and durations (\<^verbatim>\<open>time.Duration\<close>) are integers
  counting nanoseconds, \<^verbatim>\<open>Time.Add\<close> is addition and \<^verbatim>\<open>t.After(u)\<close> is
  \<open>u < t\<close>. \<^verbatim>\<open>maxItems\<close> is a Go \<^verbatim>\<open>int\<close>; the code only compares it, so it
  is an unbounded integer here. A \<^verbatim>\<open>nil\<close> slice and an empty slice are both the
  empty list: the code looks at slices through \<^verbatim>\<open>len\<close> and indexing only.
  The locks are not modelled: every operation runs alone.
\<close>

record lookupResult =
  expires :: int
  addrs :: "string list"

text \<open>
  The \<^verbatim>\<open>resolver\<close> and \<^verbatim>\<open>dialer\<close> fields of \<^verbatim>\<open>Options\<close> are interfaces
  implemented outside the package. They are handed to the operations that call them
  (see \<open>env\<close> below) instead of being stored here.
\<close>

record Options =
  ttl :: int
  maxItems :: int

type_synonym OptionFunc = "Options \<Rightarrow> Options"

text \<open>\<^verbatim>\<open>entries\<close> is a Go map, \<open>None\<close> when the map is \<^verbatim>\<open>nil\<close>.\<close>

record Cache =
  options :: Options
  entries :: "(string, lookupResult) fmap option"

text \<open>
  An \<^verbatim>\<open>error\<close> is either the package's own \<^verbatim>\<open>errNoSuchHost\<close> or a value made
  elsewhere (by a resolver or a dialer), known by its message.
\<close>

datatype error = errNoSuchHost | foreignError string

definition noSuchHost :: string where
  "noSuchHost = ''no such host''"

fun Error :: "error \<Rightarrow> string" where
  "Error errNoSuchHost = noSuchHost"
| "Error (foreignError msg) = msg"

text \<open>The run-time panics the code can reach.\<close>

datatype panic =
    nilMapAssignment      \<comment> \<open>assignment to an entry of a nil map\<close>
  | intnInvalidArgument   \<comment> \<open>\<^verbatim>\<open>rand.Intn(n)\<close> with \<open>n \<le> 0\<close>\<close>
  | indexOutOfRange       \<comment> \<open>slice index out of range\<close>

section \<open>Construction\<close>

definition defaultOptions :: Options where
  "defaultOptions = \<lparr>ttl = 10 * 1000000000, maxItems = 1024\<rparr>"

definition WithTTL :: "int \<Rightarrow> OptionFunc" where
  "WithTTL t = (\<lambda>opt. opt\<lparr>ttl := t\<rparr>)"

definition WithMaxItems :: "int \<Rightarrow> OptionFunc" where
  "WithMaxItems n = (\<lambda>opt. opt\<lparr>maxItems := n\<rparr>)"

text \<open>
  \<^verbatim>\<open>New\<close> applies the option functions in order to the defaults and allocates the
  map only when \<^verbatim>\<open>maxItems > 0\<close>. The capacity hint of \<^verbatim>\<open>make\<close> has no
  observable effect.
\<close>

definition New :: "OptionFunc list \<Rightarrow> Cache" where
  "New opts =
     (let os = foldl (\<lambda>opt f. f opt) defaultOptions opts
      in \<lparr>options = os,
          entries = (if maxItems os > 0 then Some fmempty else None)\<rparr>)"

section \<open>The store: get and set\<close>

text \<open>\<^verbatim>\<open>len(c.entries)\<close> and the keys of the map; a nil map has none.\<close>

definition keys :: "Cache \<Rightarrow> string fset" where
  "keys c = (case entries c of None \<Rightarrow> {||} | Some m \<Rightarrow> fmdom m)"

definition len :: "Cache \<Rightarrow> int" where
  "len c = int (fcard (keys c))"

text \<open>
  \<^verbatim>\<open>get\<close> reads the clock once (\<open>now\<close> is the value of \<^verbatim>\<open>nowFunc()\<close>) and
  looks the name up. Reading a nil map finds nothing. The cache is returned as well,
  as the method has a pointer receiver.
\<close>

definition get :: "Cache \<Rightarrow> int \<Rightarrow> string \<Rightarrow> (string list \<times> bool) \<times> Cache" where
  "get c now name =
     (case entries c of
        None \<Rightarrow> (([], False), c)
      | Some m \<Rightarrow>
          (case fmlookup m name of
             None \<Rightarrow> (([], False), c)
           | Some r \<Rightarrow>
               if now < expires r then ((addrs r, True), c)
               else (([], False), c)))"

text \<open>
  \<^verbatim>\<open>set\<close> reads the clock once (\<open>now\<close>), stores the result, and when the map has
  grown beyond \<^verbatim>\<open>maxItems\<close> deletes the first key that
  \<^verbatim>\<open>for k := range c.entries\<close> visits. Go leaves the iteration order of a map
  unspecified, so that key is the argument \<open>k\<close>: any key of the map as it is after
  the store. Storing into a nil map panics.
\<close>

definition set_cache ::
    "Cache \<Rightarrow> int \<Rightarrow> string \<Rightarrow> string \<Rightarrow> string list \<Rightarrow> panic + Cache" where
  "set_cache c now k name ads =
     (let result = \<lparr>expires = now + ttl (options c), addrs = ads\<rparr>
      in case entries c of
           None \<Rightarrow> Inl nilMapAssignment
         | Some m \<Rightarrow>
             (let m1 = fmupd name result m
              in if int (fcard (fmdom m1)) > maxItems (options c)
                 then Inr (c\<lparr>entries := Some (fmdrop k m1)\<rparr>)
                 else Inr (c\<lparr>entries := Some m1\<rparr>)))"

section \<open>The world outside the package\<close>

text \<open>
  What one call of \<^verbatim>\<open>lookup\<close> or \<^verbatim>\<open>DialContext\<close> takes from outside the
  package. Each of them calls the resolver at most once, the dialer at most once,
  \<^verbatim>\<open>get\<close> at most once and \<^verbatim>\<open>set\<close> at most once, so one answer of each kind
  is enough; statements about several calls give each call its own \<open>env\<close>.
  \<^item> \<open>resolverLookupHost\<close>: what \<^verbatim>\<open>c.options.resolver.LookupHost\<close> returns;
  \<^item> \<open>dialerDialContext\<close>: what \<^verbatim>\<open>c.options.dialer.DialContext\<close> returns
    for a network and an address;
  \<^item> \<open>ParseIP\<close>: whether \<^verbatim>\<open>net.ParseIP(name) != nil\<close>;
  \<^item> \<open>nowGet\<close>, \<open>nowSet\<close>: the clock as \<^verbatim>\<open>get\<close> and \<^verbatim>\<open>set\<close> read it;
  \<^item> \<open>rangeKey\<close>: the key that the eviction loop of \<^verbatim>\<open>set\<close> visits first;
  \<^item> \<open>Intn\<close>: what \<^verbatim>\<open>rand.Intn\<close> returns for a positive argument.
\<close>

record 'conn env =
  resolverLookupHost :: "string \<Rightarrow> string list \<times> error option"
  dialerDialContext :: "string \<Rightarrow> string \<Rightarrow> 'conn option \<times> error option"
  ParseIP :: "string \<Rightarrow> bool"
  nowGet :: int
  nowSet :: int
  rangeKey :: string
  Intn :: "int \<Rightarrow> int"

text \<open>The calls made to the two collaborators, in order.\<close>

datatype call = LookupHostCall string | DialContextCall string string

text \<open>\<^verbatim>\<open>strings.Contains\<close>: \<open>substr\<close> occurs in \<open>s\<close> as a contiguous block.\<close>

fun HasPrefix :: "string \<Rightarrow> string \<Rightarrow> bool" where
  "HasPrefix s [] = True"
| "HasPrefix [] (p # ps) = False"
| "HasPrefix (x # xs) (p # ps) = (x = p \<and> HasPrefix xs ps)"

fun Contains :: "string \<Rightarrow> string \<Rightarrow> bool" where
  "Contains [] substr = (substr = [])"
| "Contains (x # xs) substr = (HasPrefix (x # xs) substr \<or> Contains xs substr)"

section \<open>Resolution\<close>

text \<open>
  The two statements \<^verbatim>\<open>c.set(name, addrs); return res\<close> that end every branch of
  \<^verbatim>\<open>lookup\<close> after a miss. A panic in \<^verbatim>\<open>set\<close> ends the call.
\<close>

definition set_return ::
    "'conn env \<Rightarrow> Cache \<Rightarrow> string \<Rightarrow> string list \<Rightarrow> string list \<times> error option \<Rightarrow>
     call list \<Rightarrow> (panic + string list \<times> error option) \<times> Cache \<times> call list" where
  "set_return e c name ads res calls =
     (case set_cache c (nowSet e) (rangeKey e) name ads of
        Inl p \<Rightarrow> (Inl p, c, calls)
      | Inr c1 \<Rightarrow> (Inr res, c1, calls))"

text \<open>
  \<^verbatim>\<open>lookup\<close> returns its Go result (addresses and error) or a panic, the cache as
  it leaves it, and the calls it made to the resolver.
\<close>

definition lookup ::
    "'conn env \<Rightarrow> Cache \<Rightarrow> string \<Rightarrow>
     (panic + string list \<times> error option) \<times> Cache \<times> call list" where
  "lookup e c name =
     (if maxItems (options c) = 0 \<or> ttl (options c) = 0
      then (Inr (resolverLookupHost e name), c, [LookupHostCall name])
      else
        (let ((ads, ok), c1) = get c (nowGet e) name
         in if ok
            then (if length ads = 0 then (Inr ([], Some errNoSuchHost), c1, [])
                  else (Inr (ads, None), c1, []))
            else if ParseIP e name
            then set_return e c1 name [name] ([name], None) []
            else
              (let (ads, err) = resolverLookupHost e name;
                   calls = [LookupHostCall name]
               in if (case err of None \<Rightarrow> False
                      | Some er \<Rightarrow> Contains (Error er) noSuchHost)
                  then set_return e c1 name [] ([], Some errNoSuchHost) calls
                  else if length ads = 0
                  then set_return e c1 name [] ([], Some errNoSuchHost) calls
                  else set_return e c1 name ads (ads, None) calls)))"

section \<open>Dialing\<close>

text \<open>
  \<^verbatim>\<open>DialContext\<close> returns its Go result (connection and error) or a panic, the
  cache, and the calls made to the resolver and the dialer.
  \<^verbatim>\<open>rand.Intn(n)\<close> panics when \<open>n \<le> 0\<close>, and indexing a slice outside its
  bounds panics.
\<close>

definition DialContext ::
    "'conn env \<Rightarrow> Cache \<Rightarrow> string \<Rightarrow> string \<Rightarrow>
     (panic + 'conn option \<times> error option) \<times> Cache \<times> call list" where
  "DialContext e c network address =
     (case lookup e c address of
        (Inl p, c1, calls) \<Rightarrow> (Inl p, c1, calls)
      | (Inr (ads, Some err), c1, calls) \<Rightarrow> (Inr (None, Some err), c1, calls)
      | (Inr (ads, None), c1, calls) \<Rightarrow>
          if length ads = 1
          then (Inr (dialerDialContext e network (ads ! 0)), c1,
                calls @ [DialContextCall network (ads ! 0)])
          else if int (length ads) \<le> 0
          then (Inl intnInvalidArgument, c1, calls)
          else
            (let idx = Intn e (int (length ads))
             in if 0 \<le> idx \<and> idx < int (length ads)
                then (Inr (dialerDialContext e network (ads ! nat idx)), c1,
                      calls @ [DialContextCall network (ads ! nat idx)])
                else (Inl indexOutOfRange, c1, calls)))"

text \<open>\<^verbatim>\<open>Dial\<close> is \<^verbatim>\<open>DialContext\<close> with the background context.\<close>

definition Dial ::
    "'conn env \<Rightarrow> Cache \<Rightarrow> string \<Rightarrow> string \<Rightarrow>
     (panic + 'conn option \<times> error option) \<times> Cache \<times> call list" where
  "Dial e c network address = DialContext e c network address"

section \<open>Reachable caches\<close>

text \<open>
  The caches a program can hold: \<^verbatim>\<open>New\<close> builds one, and the only writes are those
  of \<^verbatim>\<open>set\<close>, which evicts a key of the map it has just stored into.
\<close>

inductive reachable :: "Cache \<Rightarrow> bool" where
  reachable_New: "reachable (New opts)"
| reachable_set:
    "reachable c \<Longrightarrow> k |\<in>| finsert name (keys c) \<Longrightarrow>
     set_cache c now k name ads = Inr c1 \<Longrightarrow> reachable c1"

text \<open>
  The caches a program gets by calling \<^verbatim>\<open>lookup\<close> (directly or through
  \<^verbatim>\<open>DialContext\<close>) on a cache that \<^verbatim>\<open>New\<close> built, with \<open>P\<close> telling which hosts
  are IP literals. The dialer plays no part in \<^verbatim>\<open>lookup\<close>, so the connection type
  is fixed here.
\<close>

inductive served :: "(string \<Rightarrow> bool) \<Rightarrow> Cache \<Rightarrow> bool" where
  served_New: "served P (New opts)"
| served_lookup:
    "served P c \<Longrightarrow> ParseIP (e :: unit env) = P \<Longrightarrow> rangeKey e |\<in>| finsert name (keys c) \<Longrightarrow>
     fst (snd (lookup e c name)) = c1 \<Longrightarrow> served P c1"

section \<open>Fixtures\<close>

text \<open>
  The resolver and the dialer of the package's test: the resolver answers every host
  with the same addresses and error, the dialer always connects, and the connection
  remembers the address dialed (a \<^verbatim>\<open>testConn\<close> is its \<^verbatim>\<open>address\<close>).
\<close>

definition testResolver ::
    "string list \<Rightarrow> error option \<Rightarrow> string \<Rightarrow> string list \<times> error option" where
  "testResolver ads err host = (ads, err)"

definition testDialer :: "string \<Rightarrow> string \<Rightarrow> string option \<times> error option" where
  "testDialer network address = (Some address, None)"

text \<open>A cache of capacity one that holds an entry for \<open>a\<close>.\<close>

definition full_cache :: Cache where
  "full_cache =
     \<lparr>options = \<lparr>ttl = 60, maxItems = 1\<rparr>,
      entries = Some (fmupd ''a'' \<lparr>expires = 60, addrs = [''10.0.0.1'']\<rparr> fmempty)\<rparr>"

text \<open>
  The rest of the world of an example: of the hosts that the examples use, only
  \<open>127.0.0.1\<close> is an IP literal; the clock stands at \<open>now\<close> during the call; the
  eviction loop visits \<open>k\<close> first; the random source answers \<open>i\<close>.
\<close>

definition testEnv ::
    "(string \<Rightarrow> string list \<times> error option) \<Rightarrow> int \<Rightarrow> string \<Rightarrow> int \<Rightarrow> string env" where
  "testEnv r now k i =
     \<lparr>resolverLookupHost = r, dialerDialContext = testDialer,
      ParseIP = (\<lambda>h. h = ''127.0.0.1''), nowGet = now, nowSet = now, rangeKey = k,
      Intn = (\<lambda>n. i)\<rparr>"

text \<open>The four addresses of the test, and a dialer that fails every connection.\<close>

definition testAddrs :: "string list" where
  "testAddrs = [''127.0.0.1'', ''127.0.0.2'', ''127.0.0.3'', ''127.0.0.4'']"

definition refusingDialer :: "string \<Rightarrow> string \<Rightarrow> string option \<times> error option" where
  "refusingDialer network address = (None, Some (foreignError ''connection refused''))"

text \<open>A cache with the default capacity that holds the four addresses until 3600.\<close>

definition multi_cache :: Cache where
  "multi_cache =
     \<lparr>options = \<lparr>ttl = 3600, maxItems = 1024\<rparr>,
      entries = Some (fmupd ''testing123'' \<lparr>expires = 3600, addrs = testAddrs\<rparr> fmempty)\<rparr>"

section \<open>Substrings\<close>

lemma HasPrefix_iff: "HasPrefix s p \<longleftrightarrow> (\<exists>q. s = p @ q)"
  by (induction s p rule: HasPrefix.induct) auto

lemma Contains_iff: "Contains s sub \<longleftrightarrow> (\<exists>p q. s = p @ sub @ q)"
proof (induction s)
  case Nil
  then show ?case by simp
next
  case (Cons x xs)
  show ?case
  proof
    assume "Contains (x # xs) sub"
    then consider "HasPrefix (x # xs) sub" | "Contains xs sub" by auto
    then show "\<exists>p q. x # xs = p @ sub @ q"
    proof cases
      case 1
      then obtain q where "x # xs = sub @ q" by (auto simp: HasPrefix_iff)
      then have "x # xs = [] @ sub @ q" by simp
      then show ?thesis by blast
    next
      case 2
      then obtain p q where "xs = p @ sub @ q" using Cons.IH by auto
      then have "x # xs = (x # p) @ sub @ q" by simp
      then show ?thesis by blast
    qed
  next
    assume "\<exists>p q. x # xs = p @ sub @ q"
    then obtain p q where pq: "x # xs = p @ sub @ q" by auto
    show "Contains (x # xs) sub"
    proof (cases p)
      case Nil
      then have "HasPrefix (x # xs) sub" using pq by (auto simp: HasPrefix_iff)
      then show ?thesis by simp
    next
      case (Cons y ys)
      then have "xs = ys @ sub @ q" using pq by simp
      then have "Contains xs sub" using Cons.IH by blast
      then show ?thesis by simp
    qed
  qed
qed

section \<open>The store\<close>

text \<open>
  C4. \<^verbatim>\<open>get\<close> answers \<open>(addresses, true)\<close> exactly when the key has an entry whose
  expiry lies strictly after the current time, and then with that entry's addresses;
  in every other case, an expired entry included, it answers not found; and it leaves
  the cache as it was.
\<close>

theorem get_live_entries_only:
  "(fst (get c now key) = (ads, True) \<longleftrightarrow>
      (\<exists>m r. entries c = Some m \<and> fmlookup m key = Some r \<and> now < expires r \<and>
             ads = addrs r))
   \<and> (\<not> (\<exists>m r. entries c = Some m \<and> fmlookup m key = Some r \<and> now < expires r) \<longrightarrow>
        fst (get c now key) = ([], False))
   \<and> snd (get c now key) = c"
  by (auto simp: get_def split: option.splits)

theorem get_live_entries_only_witness:
  "fst (get full_cache 59 ''a'') = ([''10.0.0.1''], True)
   \<and> fst (get full_cache 60 ''a'') = ([], False)
   \<and> fst (get full_cache 0 ''b'') = ([], False)
   \<and> snd (get full_cache 59 ''a'') = full_cache"
  using get_live_entries_only [of full_cache 59 "''a''" "[''10.0.0.1'']"]
    get_live_entries_only [of full_cache 60 "''a''" "[]"]
    get_live_entries_only [of full_cache 0 "''b''" "[]"]
  by (simp add: full_cache_def)

lemma fcard_finsert_drop:
  assumes "k |\<in>| finsert n A"
  shows "Suc (fcard (finsert n A |-| {|k|})) = fcard (finsert n A)"
  using assms by (rule fcard_Suc_fminus1)

lemma fcard_finsert_Suc: "fcard (finsert n A) \<le> Suc (fcard A)"
  by (simp add: fcard_finsert_if)

lemma set_cache_options: "set_cache c now k name ads = Inr c1 \<Longrightarrow> options c1 = options c"
  by (auto simp: set_cache_def Let_def split: option.splits if_splits)

text \<open>What \<^verbatim>\<open>set\<close> does to an allocated map.\<close>

lemma set_cache_Some:
  assumes "entries c = Some m"
  shows "set_cache c now k name ads =
           Inr (c\<lparr>entries := Some
             (let m1 = fmupd name \<lparr>expires = now + ttl (options c), addrs = ads\<rparr> m
              in if int (fcard (fmdom m1)) > maxItems (options c) then fmdrop k m1 else m1)\<rparr>)"
  using assms by (simp add: set_cache_def Let_def)

lemma set_cache_None: "entries c = None \<Longrightarrow> set_cache c now k name ads = Inl nilMapAssignment"
  by (simp add: set_cache_def)

lemma set_cache_keys:
  assumes "set_cache c now k name ads = Inr c1"
  shows "keys c1 =
           (if int (fcard (finsert name (keys c))) > maxItems (options c)
            then finsert name (keys c) |-| {|k|} else finsert name (keys c))"
proof -
  from assms obtain m where m: "entries c = Some m"
    by (auto simp: set_cache_def Let_def split: option.splits)
  show ?thesis using assms m by (auto simp: set_cache_Some keys_def Let_def)
qed

lemma set_cache_len:
  assumes s: "set_cache c now k name ads = Inr c1" and k: "k |\<in>| finsert name (keys c)"
    and le: "len c \<le> maxItems (options c)"
  shows "len c1 \<le> maxItems (options c)"
proof (cases "int (fcard (finsert name (keys c))) > maxItems (options c)")
  case True
  then have "keys c1 = finsert name (keys c) |-| {|k|}"
    using set_cache_keys [OF s] by simp
  moreover have "int (fcard (finsert name (keys c) |-| {|k|})) \<le> maxItems (options c)"
    using fcard_finsert_drop [OF k] fcard_finsert_Suc [of name "keys c"] le
    by (simp add: len_def)
  ultimately show ?thesis by (simp add: len_def)
next
  case False
  then show ?thesis using set_cache_keys [OF s] by (simp add: len_def)
qed

lemma New_len: "len (New opts) = 0"
  by (simp add: New_def len_def keys_def Let_def)

lemma New_entries:
  "entries (New opts) = (if 0 < maxItems (options (New opts)) then Some fmempty else None)"
  by (simp add: New_def Let_def)

lemma reachable_inv:
  "reachable c \<Longrightarrow>
     (0 < maxItems (options c) \<longrightarrow> (\<exists>m. entries c = Some m) \<and> len c \<le> maxItems (options c))"
proof (induction rule: reachable.induct)
  case (reachable_New opts)
  show ?case using New_len [of opts] New_entries [of opts] by simp
next
  case (reachable_set c k name now ads c1)
  have o: "options c1 = options c" using reachable_set.hyps(3) by (rule set_cache_options)
  show ?case
  proof
    assume "0 < maxItems (options c1)"
    then have p: "0 < maxItems (options c)" using o by simp
    then obtain m where m: "entries c = Some m" and le: "len c \<le> maxItems (options c)"
      using reachable_set.IH by auto
    have "len c1 \<le> maxItems (options c)"
      using set_cache_len [OF reachable_set.hyps(3) reachable_set.hyps(2) le] .
    moreover have "\<exists>m1. entries c1 = Some m1"
      using reachable_set.hyps(3) m by (auto simp: set_cache_Some)
    ultimately show "(\<exists>m. entries c1 = Some m) \<and> len c1 \<le> maxItems (options c1)"
      using o by simp
  qed
qed

lemma New_example: "New [WithTTL 60, WithMaxItems 1] = \<lparr>options = \<lparr>ttl = 60, maxItems = 1\<rparr>, entries = Some fmempty\<rparr>"
  by (simp add: New_def WithTTL_def WithMaxItems_def defaultOptions_def Let_def)

lemma full_cache_reachable: "reachable full_cache"
proof -
  have "set_cache (New [WithTTL 60, WithMaxItems 1]) 0 ''a'' ''a'' [''10.0.0.1''] = Inr full_cache"
    unfolding New_example
    by (simp add: set_cache_def Let_def full_cache_def fcard_finsert_if fcard_fempty)
  moreover have "''a'' |\<in>| finsert ''a'' (keys (New [WithTTL 60, WithMaxItems 1]))" by simp
  ultimately show ?thesis using reachable_set [OF reachable_New] by blast
qed

text \<open>
  C3. In every reachable cache with \<^verbatim>\<open>maxItems > 0\<close> the map is allocated and holds
  at most \<^verbatim>\<open>maxItems\<close> entries, and \<^verbatim>\<open>set\<close> keeps it so: the store makes the map
  at most one entry larger than \<^verbatim>\<open>maxItems\<close>, and when it does exceed
  \<^verbatim>\<open>maxItems\<close> (which takes a new key) exactly the one entry \<open>k\<close> that the
  range loop visits is deleted before \<^verbatim>\<open>set\<close> returns.
\<close>

theorem set_keeps_capacity:
  assumes r: "reachable c" and pos: "0 < maxItems (options c)"
    and k: "k |\<in>| finsert name (keys c)"
  shows "\<exists>m c1. entries c = Some m
           \<and> len c \<le> maxItems (options c)
           \<and> set_cache c now k name ads = Inr c1
           \<and> len c1 \<le> maxItems (options c1)
           \<and> int (fcard (finsert name (keys c))) \<le> maxItems (options c) + 1
           \<and> (if int (fcard (finsert name (keys c))) > maxItems (options c)
               then name |\<notin>| keys c
                  \<and> entries c1 = Some (fmdrop k
                       (fmupd name \<lparr>expires = now + ttl (options c), addrs = ads\<rparr> m))
                  \<and> keys c1 = finsert name (keys c) |-| {|k|}
                  \<and> len c1 = int (fcard (finsert name (keys c))) - 1
               else entries c1 = Some
                       (fmupd name \<lparr>expires = now + ttl (options c), addrs = ads\<rparr> m))"
proof -
  from reachable_inv [OF r] pos obtain m where m: "entries c = Some m"
    and le: "len c \<le> maxItems (options c)" by auto
  define r where "r = \<lparr>expires = now + ttl (options c), addrs = ads\<rparr>"
  define c1 where "c1 = c\<lparr>entries := Some
     (if int (fcard (fmdom (fmupd name r m))) > maxItems (options c)
      then fmdrop k (fmupd name r m) else fmupd name r m)\<rparr>"
  have s: "set_cache c now k name ads = Inr c1"
    using set_cache_Some [OF m, of now k name ads] by (simp add: c1_def r_def Let_def)
  have km: "keys c = fmdom m" using m by (simp add: keys_def)
  have o: "options c1 = options c" by (simp add: c1_def)
  have l1: "len c1 \<le> maxItems (options c1)"
    using set_cache_len [OF s k le] o by simp
  have b: "int (fcard (finsert name (keys c))) \<le> maxItems (options c) + 1"
    using fcard_finsert_Suc [of name "keys c"] le by (simp add: len_def)
  show ?thesis
  proof (cases "int (fcard (finsert name (keys c))) > maxItems (options c)")
    case True
    have new: "name |\<notin>| keys c"
    proof
      assume "name |\<in>| keys c"
      then have "finsert name (keys c) = keys c" by auto
      then show False using True le by (simp add: len_def)
    qed
    have e1: "entries c1 = Some (fmdrop k (fmupd name r m))"
      using True km by (simp add: c1_def)
    have k1: "keys c1 = finsert name (keys c) |-| {|k|}"
      using set_cache_keys [OF s] True by simp
    have "len c1 = int (fcard (finsert name (keys c))) - 1"
      using fcard_finsert_drop [OF k] k1 by (simp add: len_def)
    then show ?thesis using m le s l1 b True new e1 k1 by (simp add: r_def)
  next
    case False
    have "entries c1 = Some (fmupd name r m)" using False km by (simp add: c1_def)
    then show ?thesis using m le s l1 b False by (simp add: r_def)
  qed
qed


theorem set_keeps_capacity_witness:
  "reachable full_cache \<and> 0 < maxItems (options full_cache)
   \<and> ''a'' |\<in>| finsert ''b'' (keys full_cache)
   \<and> len full_cache = 1
   \<and> (\<exists>c1. set_cache full_cache 5 ''a'' ''b'' [] = Inr c1 \<and> len c1 = 1
          \<and> entries c1 = Some (fmupd ''b'' \<lparr>expires = 65, addrs = []\<rparr> fmempty))"
proof -
  have k: "''a'' |\<in>| finsert ''b'' (keys full_cache)"
    by (simp add: full_cache_def keys_def)
  have p: "0 < maxItems (options full_cache)" by (simp add: full_cache_def)
  have l: "len full_cache = 1"
    by (simp add: full_cache_def keys_def len_def fcard_finsert_if fcard_fempty)
  have s: "set_cache full_cache 5 ''a'' ''b'' [] =
      Inr (full_cache\<lparr>entries := Some (fmupd ''b'' \<lparr>expires = 65, addrs = []\<rparr> fmempty)\<rparr>)"
    by (simp add: set_cache_def Let_def full_cache_def fcard_finsert_if fcard_fempty fmdrop_fmupd)
  have "len (full_cache\<lparr>entries := Some (fmupd ''b'' \<lparr>expires = 65, addrs = []\<rparr> fmempty)\<rparr>) = 1"
    by (simp add: keys_def len_def fcard_finsert_if fcard_fempty)
  then show ?thesis
    using set_keeps_capacity [OF full_cache_reachable p k, of 5 "[]"] full_cache_reachable k p l s
    by simp
qed

section \<open>Properties of resolution\<close>

lemma get_cache: "snd (get c now name) = c"
  by (simp add: get_def split: option.splits)

lemma get_eq: "get c now name = (fst (get c now name), c)"
  using get_cache [of c now name] by (metis prod.collapse)

lemma lookup_disabled:
  assumes "maxItems (options c) = 0 \<or> ttl (options c) = 0"
  shows "lookup e c name = (Inr (resolverLookupHost e name), c, [LookupHostCall name])"
  using assms by (auto simp: lookup_def)

lemma lookup_hit:
  assumes "maxItems (options c) \<noteq> 0" and "ttl (options c) \<noteq> 0"
    and "fst (get c (nowGet e) name) = (ads, True)"
  shows "lookup e c name =
           (if ads = [] then (Inr ([], Some errNoSuchHost), c, []) else (Inr (ads, None), c, []))"
proof -
  have "get c (nowGet e) name = ((ads, True), c)"
    using get_eq [of c "nowGet e" name] assms(3) by simp
  then show ?thesis using assms(1,2) by (simp add: lookup_def)
qed

lemma lookup_miss_ip:
  assumes "maxItems (options c) \<noteq> 0" and "ttl (options c) \<noteq> 0"
    and "\<not> snd (fst (get c (nowGet e) name))" and "ParseIP e name"
  shows "lookup e c name = set_return e c name [name] ([name], None) []"
proof -
  obtain xs where "get c (nowGet e) name = ((xs, False), c)"
    using get_cache [of c "nowGet e" name] assms(3) by (cases "get c (nowGet e) name") auto
  then show ?thesis using assms(1,2,4) by (simp add: lookup_def)
qed

lemma lookup_miss_resolve:
  assumes "maxItems (options c) \<noteq> 0" and "ttl (options c) \<noteq> 0"
    and "\<not> snd (fst (get c (nowGet e) name))" and "\<not> ParseIP e name"
    and "resolverLookupHost e name = (ads, err)"
  shows "lookup e c name =
           (if (\<exists>er. err = Some er \<and> Contains (Error er) noSuchHost) \<or> ads = []
            then set_return e c name [] ([], Some errNoSuchHost) [LookupHostCall name]
            else set_return e c name ads (ads, None) [LookupHostCall name])"
proof -
  obtain xs where "get c (nowGet e) name = ((xs, False), c)"
    using get_cache [of c "nowGet e" name] assms(3) by (cases "get c (nowGet e) name") auto
  then show ?thesis using assms(1,2,4,5)
    by (cases err) (auto simp: lookup_def Let_def)
qed

lemma set_return_None:
  "entries c = None \<Longrightarrow> set_return e c name ads res calls = (Inl nilMapAssignment, c, calls)"
  by (simp add: set_return_def set_cache_None)

lemma set_return_Inr:
  assumes "set_return e c name ads res calls = (Inr r, c1, cl)"
  shows "r = res \<and> cl = calls \<and> set_cache c (nowSet e) (rangeKey e) name ads = Inr c1"
  using assms by (auto simp: set_return_def split: sum.splits)

lemma New_options: "options (New opts) = foldl (\<lambda>opt f. f opt) defaultOptions opts"
  by (simp add: New_def Let_def)

text \<open>
  C5. With \<^verbatim>\<open>ttl == 0\<close> or \<^verbatim>\<open>maxItems == 0\<close>, \<^verbatim>\<open>lookup\<close> calls the resolver
  exactly once, returns its addresses and error as they are, and leaves the cache as
  it was, whatever the cache holds.
\<close>

theorem lookup_bypasses_cache:
  assumes "ttl (options c) = 0 \<or> maxItems (options c) = 0"
  shows "lookup e c name = (Inr (resolverLookupHost e name), c, [LookupHostCall name])"
  using assms by (auto simp: lookup_def)

theorem lookup_bypasses_cache_witness:
  "ttl (options (New [WithTTL 0])) = 0
   \<and> lookup (testEnv (testResolver [] (Some (foreignError ''timeout''))) 0 ''a'' 0)
        (New [WithTTL 0]) ''testing123''
      = (Inr ([], Some (foreignError ''timeout'')), New [WithTTL 0],
         [LookupHostCall ''testing123''])"
proof -
  have t: "ttl (options (New [WithTTL 0])) = 0"
    by (simp add: New_options WithTTL_def)
  then have "ttl (options (New [WithTTL 0])) = 0 \<or> maxItems (options (New [WithTTL 0])) = 0"
    by simp
  from lookup_bypasses_cache [OF this,
      of "testEnv (testResolver [] (Some (foreignError ''timeout''))) 0 ''a'' 0" "''testing123''"] t
  show ?thesis
    by (simp add: testEnv_def testResolver_def)
qed

text \<open>
  C9. A cache built with \<^verbatim>\<open>maxItems < 0\<close> and \<^verbatim>\<open>ttl != 0\<close> has a nil map and
  still takes the cached path: \<^verbatim>\<open>get\<close> misses, and the lookup ends in the panic of
  \<^verbatim>\<open>set\<close> storing into the nil map (after the resolver was called, for a host
  that is not an IP literal). On a cache as \<^verbatim>\<open>New\<close> builds it, \<^verbatim>\<open>set\<close> returns
  without a panic exactly when \<^verbatim>\<open>maxItems > 0\<close>.
\<close>

theorem negative_maxItems_panics:
  "(maxItems (options (New opts)) < 0 \<and> ttl (options (New opts)) \<noteq> 0 \<longrightarrow>
      entries (New opts) = None
      \<and> fst (get (New opts) (nowGet e) name) = ([], False)
      \<and> lookup e (New opts) name =
          (Inl nilMapAssignment, New opts,
           if ParseIP e name then [] else [LookupHostCall name]))
   \<and> ((\<exists>c1. set_cache (New opts) now k name ads = Inr c1) \<longleftrightarrow>
        0 < maxItems (options (New opts)))"
proof -
  have a: "(\<exists>c1. set_cache (New opts) now k name ads = Inr c1) \<longleftrightarrow>
        0 < maxItems (options (New opts))"
    using New_entries [of opts]
    by (cases "0 < maxItems (options (New opts))") (auto simp: set_cache_None set_cache_Some)
  have b: "entries (New opts) = None
      \<and> fst (get (New opts) (nowGet e) name) = ([], False)
      \<and> lookup e (New opts) name =
          (Inl nilMapAssignment, New opts,
           if ParseIP e name then [] else [LookupHostCall name])"
    if neg: "maxItems (options (New opts)) < 0" and t: "ttl (options (New opts)) \<noteq> 0"
  proof -
    have n: "entries (New opts) = None" using New_entries [of opts] neg by simp
    have g: "fst (get (New opts) (nowGet e) name) = ([], False)" using n by (simp add: get_def)
    have m: "maxItems (options (New opts)) \<noteq> 0" using neg by simp
    have miss: "\<not> snd (fst (get (New opts) (nowGet e) name))" using g by simp
    have "lookup e (New opts) name =
          (Inl nilMapAssignment, New opts,
           if ParseIP e name then [] else [LookupHostCall name])"
    proof (cases "ParseIP e name")
      case True
      then show ?thesis using lookup_miss_ip [OF m t miss True] by (simp add: set_return_None [OF n])
    next
      case False
      obtain xs err where r: "resolverLookupHost e name = (xs, err)"
        by (cases "resolverLookupHost e name") auto
      show ?thesis using lookup_miss_resolve [OF m t miss False r] False
        by (simp add: set_return_None [OF n])
    qed
    then show ?thesis using n g by simp
  qed
  show ?thesis using a b by blast
qed

theorem negative_maxItems_panics_witness:
  "maxItems (options (New [WithMaxItems (- 1)])) < 0
   \<and> ttl (options (New [WithMaxItems (- 1)])) \<noteq> 0
   \<and> entries (New [WithMaxItems (- 1)]) = None
   \<and> lookup (testEnv (testResolver [''10.0.0.1''] None) 0 ''testing123'' 0)
        (New [WithMaxItems (- 1)]) ''testing123''
      = (Inl nilMapAssignment, New [WithMaxItems (- 1)], [LookupHostCall ''testing123''])
   \<and> set_cache (New [WithMaxItems (- 1)]) 0 ''a'' ''a'' [] = Inl nilMapAssignment
   \<and> set_cache (New [WithMaxItems 1]) 0 ''a'' ''a'' [] \<noteq> Inl nilMapAssignment"
proof -
  have o: "options (New [WithMaxItems (- 1)]) = \<lparr>ttl = 10000000000, maxItems = - 1\<rparr>"
    by (simp add: New_options WithMaxItems_def defaultOptions_def)
  have o1: "options (New [WithMaxItems 1]) = \<lparr>ttl = 10000000000, maxItems = 1\<rparr>"
    by (simp add: New_options WithMaxItems_def defaultOptions_def)
  have p: "\<not> ParseIP (testEnv (testResolver [''10.0.0.1''] None) 0 ''testing123'' 0) ''testing123''"
    by (simp add: testEnv_def)
  have s: "set_cache (New [WithMaxItems (- 1)]) 0 ''a'' ''a'' [] = Inl nilMapAssignment"
    using New_entries [of "[WithMaxItems (- 1)]"] o by (simp add: set_cache_None)
  show ?thesis
    using negative_maxItems_panics
            [of "[WithMaxItems (- 1)]" "testEnv (testResolver [''10.0.0.1''] None) 0 ''testing123'' 0"
                "''testing123''" 0 "''a''" "[]"]
          negative_maxItems_panics
            [of "[WithMaxItems 1]" "testEnv (testResolver [''10.0.0.1''] None) 0 ''testing123'' 0"
                "''a''" 0 "''a''" "[]"]
          o o1 p s
    by auto
qed

section \<open>Properties of dialing\<close>

lemma lookup_Intn: "lookup (e\<lparr>Intn := f\<rparr>) c host = lookup e c host"
  by (auto simp: lookup_def set_return_def Let_def split: prod.splits)

lemma lookup_dialer: "lookup (e\<lparr>dialerDialContext := d\<rparr>) c host = lookup e c host"
  by (auto simp: lookup_def set_return_def Let_def split: prod.splits)

lemma DialContext_resolved:
  assumes "lookup e c host = (Inr (ads, None), c1, calls)"
  shows "DialContext e c network host =
     (if length ads = 1
      then (Inr (dialerDialContext e network (ads ! 0)), c1,
            calls @ [DialContextCall network (ads ! 0)])
      else if ads = [] then (Inl intnInvalidArgument, c1, calls)
      else if 0 \<le> Intn e (int (length ads)) \<and> Intn e (int (length ads)) < int (length ads)
      then (Inr (dialerDialContext e network (ads ! nat (Intn e (int (length ads))))), c1,
            calls @ [DialContextCall network (ads ! nat (Intn e (int (length ads))))])
      else (Inl indexOutOfRange, c1, calls))"
  using assms by (simp add: DialContext_def Let_def)

lemma DialContext_unresolved:
  assumes "lookup e c host = (Inr (ads, Some err), c1, calls)"
  shows "DialContext e c network host = (Inr (None, Some err), c1, calls)"
  using assms by (simp add: DialContext_def)

lemma DialContext_panic:
  assumes "lookup e c host = (Inl p, c1, calls)"
  shows "DialContext e c network host = (Inl p, c1, calls)"
  using assms by (simp add: DialContext_def)

lemma lookup_enabled_nonempty:
  assumes m: "maxItems (options c) \<noteq> 0" and t: "ttl (options c) \<noteq> 0"
    and l: "lookup e c name = (Inr (ads, None), c1, calls)"
  shows "ads \<noteq> []"
proof (cases "snd (fst (get c (nowGet e) name))")
  case True
  then obtain xs where "fst (get c (nowGet e) name) = (xs, True)"
    by (cases "fst (get c (nowGet e) name)") auto
  from lookup_hit [OF m t this] l show ?thesis by (auto split: if_splits)
next
  case miss: False
  show ?thesis
  proof (cases "ParseIP e name")
    case True
    from lookup_miss_ip [OF m t miss True] l
    have "set_return e c name [name] ([name], None) [] = (Inr (ads, None), c1, calls)" by simp
    from set_return_Inr [OF this] show ?thesis by auto
  next
    case False
    obtain xs err where r: "resolverLookupHost e name = (xs, err)"
      by (cases "resolverLookupHost e name") auto
    show ?thesis
    proof (cases "(\<exists>er. err = Some er \<and> Contains (Error er) noSuchHost) \<or> xs = []")
      case True
      have "lookup e c name = set_return e c name [] ([], Some errNoSuchHost) [LookupHostCall name]"
        by (simp only: lookup_miss_resolve [OF m t miss False r] if_P [OF True])
      then have "set_return e c name [] ([], Some errNoSuchHost) [LookupHostCall name]
                 = (Inr (ads, None), c1, calls)"
        using l by simp
      from set_return_Inr [OF this] show ?thesis by simp
    next
      case np: False
      have "lookup e c name = set_return e c name xs (xs, None) [LookupHostCall name]"
        by (simp only: lookup_miss_resolve [OF m t miss False r] if_not_P [OF np])
      then have "set_return e c name xs (xs, None) [LookupHostCall name]
                 = (Inr (ads, None), c1, calls)"
        using l by simp
      from set_return_Inr [OF this] np show ?thesis by auto
    qed
  qed
qed

text \<open>
  C10. With caching enabled a lookup that returns no error returns at least one
  address, so \<^verbatim>\<open>DialContext\<close> never calls \<^verbatim>\<open>rand.Intn\<close> with zero. With caching
  disabled a resolver answer of no addresses and no error is returned as it is, and
  \<^verbatim>\<open>DialContext\<close> then reaches \<^verbatim>\<open>rand.Intn(0)\<close>, which panics.
\<close>

theorem empty_resolution_reaches_Intn:
  "(maxItems (options c) \<noteq> 0 \<and> ttl (options c) \<noteq> 0 \<longrightarrow>
      (lookup e c name = (Inr (ads, None), c1, calls) \<longrightarrow> ads \<noteq> [])
      \<and> fst (DialContext e c network name) \<noteq> Inl intnInvalidArgument)
   \<and> ((maxItems (options c) = 0 \<or> ttl (options c) = 0) \<and>
       resolverLookupHost e name = ([], None) \<longrightarrow>
         lookup e c name = (Inr ([], None), c, [LookupHostCall name])
         \<and> DialContext e c network name = (Inl intnInvalidArgument, c, [LookupHostCall name]))"
proof -
  have a: "fst (DialContext e c network name) \<noteq> Inl intnInvalidArgument"
    if m: "maxItems (options c) \<noteq> 0" and t: "ttl (options c) \<noteq> 0"
  proof -
    obtain r c2 cl where l: "lookup e c name = (r, c2, cl)"
      by (cases "lookup e c name") auto
    show ?thesis
    proof (cases r)
      case (Inl p)
      have "p = nilMapAssignment"
        using l Inl m t
        by (auto simp: lookup_def set_return_def set_cache_def Let_def
            split: prod.splits if_splits sum.splits option.splits)
      then show ?thesis using DialContext_panic [of e c name p c2 cl network] l Inl by simp
    next
      case (Inr res)
      obtain xs err where res: "res = (xs, err)" by (cases res) auto
      show ?thesis
      proof (cases err)
        case None
        then have l1: "lookup e c name = (Inr (xs, None), c2, cl)" using l Inr res by simp
        have "xs \<noteq> []" using lookup_enabled_nonempty [OF m t l1] .
        then show ?thesis using DialContext_resolved [OF l1, of network] by auto
      next
        case (Some er)
        then have "lookup e c name = (Inr (xs, Some er), c2, cl)" using l Inr res by simp
        from DialContext_unresolved [OF this, of network] show ?thesis by simp
      qed
    qed
  qed
  have b: "lookup e c name = (Inr ([], None), c, [LookupHostCall name])
         \<and> DialContext e c network name = (Inl intnInvalidArgument, c, [LookupHostCall name])"
    if d: "maxItems (options c) = 0 \<or> ttl (options c) = 0"
      and r: "resolverLookupHost e name = ([], None)"
  proof -
    have l: "lookup e c name = (Inr ([], None), c, [LookupHostCall name])"
      using lookup_disabled [OF d, of e name] r by simp
    from DialContext_resolved [OF l, of network] l show ?thesis by simp
  qed
  show ?thesis using a b lookup_enabled_nonempty [of c e name ads c1 calls] by blast
qed

theorem empty_resolution_reaches_Intn_witness:
  "maxItems (options (New [WithTTL 0])) \<noteq> 0 \<and> ttl (options (New [WithTTL 0])) = 0
   \<and> DialContext (testEnv (testResolver [] None) 0 ''a'' 0) (New [WithTTL 0]) ''tcp'' ''testing123''
      = (Inl intnInvalidArgument, New [WithTTL 0], [LookupHostCall ''testing123''])
   \<and> ttl (options (New [WithTTL 60])) \<noteq> 0 \<and> maxItems (options (New [WithTTL 60])) \<noteq> 0
   \<and> DialContext (testEnv (testResolver [] None) 0 ''a'' 0) (New [WithTTL 60]) ''tcp'' ''testing123''
      = (Inr (None, Some errNoSuchHost),
         (New [WithTTL 60])\<lparr>entries :=
            Some (fmupd ''testing123'' \<lparr>expires = 60, addrs = []\<rparr> fmempty)\<rparr>,
         [LookupHostCall ''testing123''])"
proof -
  have o: "options (New [WithTTL 0]) = \<lparr>ttl = 0, maxItems = 1024\<rparr>"
    by (simp add: New_options WithTTL_def defaultOptions_def)
  have o1: "New [WithTTL 60] = \<lparr>options = \<lparr>ttl = 60, maxItems = 1024\<rparr>, entries = Some fmempty\<rparr>"
    by (simp add: New_def Let_def WithTTL_def defaultOptions_def)
  have r: "resolverLookupHost (testEnv (testResolver [] None) 0 ''a'' 0) ''testing123'' = ([], None)"
    by (simp add: testEnv_def testResolver_def)
  have l: "lookup (testEnv (testResolver [] None) 0 ''a'' 0) (New [WithTTL 60]) ''testing123''
      = (Inr ([], Some errNoSuchHost),
         (New [WithTTL 60])\<lparr>entries :=
            Some (fmupd ''testing123'' \<lparr>expires = 60, addrs = []\<rparr> fmempty)\<rparr>,
         [LookupHostCall ''testing123''])"
    unfolding o1
    by (simp add: lookup_def get_def set_return_def set_cache_def Let_def testEnv_def
        testResolver_def fcard_finsert_if fcard_fempty)
  show ?thesis
    using empty_resolution_reaches_Intn
        [of "New [WithTTL 0]" "testEnv (testResolver [] None) 0 ''a'' 0" "''testing123''"
            "[]" "New [WithTTL 0]" "[]" "''tcp''"]
      empty_resolution_reaches_Intn
        [of "New [WithTTL 60]" "testEnv (testResolver [] None) 0 ''a'' 0" "''testing123''"
            "[]" "New [WithTTL 60]" "[]" "''tcp''"]
      o r DialContext_unresolved [OF l, of "''tcp''"]
    by (simp add: o1)
qed

lemma New_3600:
  "New [WithTTL 3600] = \<lparr>options = \<lparr>ttl = 3600, maxItems = 1024\<rparr>, entries = Some fmempty\<rparr>"
  by (simp add: New_def Let_def WithTTL_def defaultOptions_def)

lemma lookup_multi_first:
  "lookup (testEnv (testResolver testAddrs None) 0 k i) (New [WithTTL 3600]) ''testing123''
   = (Inr (testAddrs, None), multi_cache, [LookupHostCall ''testing123''])"
  unfolding New_3600
  by (simp add: lookup_def get_def set_return_def set_cache_def Let_def testEnv_def
      testResolver_def fcard_finsert_if fcard_fempty multi_cache_def testAddrs_def)

lemma get_multi: "fst (get multi_cache 1 ''testing123'') = (testAddrs, True)"
  by (simp add: get_def multi_cache_def)

text \<open>
  C7. After a resolution without error: a single address is dialed whatever the random
  source would answer; of several addresses the one at the index that
  \<^verbatim>\<open>rand.Intn\<close> answers in this call is dialed, and it is one of the resolved
  addresses; a later call served from the cache entry uses the index that
  \<^verbatim>\<open>rand.Intn\<close> answers in that later call.
\<close>

theorem dial_selects_per_call:
  assumes l: "lookup e c host = (Inr (ads, None), c1, calls)"
  shows "(length ads = 1 \<longrightarrow>
            DialContext (e\<lparr>Intn := f\<rparr>) c network host =
              (Inr (dialerDialContext e network (ads ! 0)), c1,
               calls @ [DialContextCall network (ads ! 0)])
            \<and> ads = [ads ! 0])
       \<and> (1 < length ads \<and> 0 \<le> Intn e (int (length ads)) \<and>
          Intn e (int (length ads)) < int (length ads) \<longrightarrow>
            DialContext e c network host =
              (Inr (dialerDialContext e network (ads ! nat (Intn e (int (length ads))))), c1,
               calls @ [DialContextCall network (ads ! nat (Intn e (int (length ads))))])
            \<and> ads ! nat (Intn e (int (length ads))) \<in> set ads)
       \<and> (1 < length ads \<and> maxItems (options c1) \<noteq> 0 \<and> ttl (options c1) \<noteq> 0 \<and>
          fst (get c1 (nowGet e2) host) = (ads, True) \<and>
          0 \<le> Intn e2 (int (length ads)) \<and> Intn e2 (int (length ads)) < int (length ads) \<longrightarrow>
            DialContext e2 c1 network host =
              (Inr (dialerDialContext e2 network (ads ! nat (Intn e2 (int (length ads))))), c1,
               [DialContextCall network (ads ! nat (Intn e2 (int (length ads))))]))"
proof -
  have one: "DialContext (e\<lparr>Intn := f\<rparr>) c network host =
              (Inr (dialerDialContext e network (ads ! 0)), c1,
               calls @ [DialContextCall network (ads ! 0)]) \<and> ads = [ads ! 0]"
    if n: "length ads = 1"
  proof -
    have "lookup (e\<lparr>Intn := f\<rparr>) c host = (Inr (ads, None), c1, calls)"
      using l by (simp add: lookup_Intn)
    from DialContext_resolved [OF this, of network] n
    have "DialContext (e\<lparr>Intn := f\<rparr>) c network host =
              (Inr (dialerDialContext e network (ads ! 0)), c1,
               calls @ [DialContextCall network (ads ! 0)])" by simp
    moreover have "ads = [ads ! 0]" using n by (cases ads) auto
    ultimately show ?thesis by simp
  qed
  have many: "DialContext e c network host =
              (Inr (dialerDialContext e network (ads ! nat (Intn e (int (length ads))))), c1,
               calls @ [DialContextCall network (ads ! nat (Intn e (int (length ads))))])
            \<and> ads ! nat (Intn e (int (length ads))) \<in> set ads"
    if n: "1 < length ads" and lo: "0 \<le> Intn e (int (length ads))"
      and hi: "Intn e (int (length ads)) < int (length ads)"
  proof -
    have ne: "ads \<noteq> []" using n by auto
    have "nat (Intn e (int (length ads))) < length ads" using lo hi by linarith
    then have "ads ! nat (Intn e (int (length ads))) \<in> set ads" by (rule nth_mem)
    then show ?thesis using DialContext_resolved [OF l, of network] n ne lo hi by simp
  qed
  have later: "DialContext e2 c1 network host =
              (Inr (dialerDialContext e2 network (ads ! nat (Intn e2 (int (length ads))))), c1,
               [DialContextCall network (ads ! nat (Intn e2 (int (length ads))))])"
    if n: "1 < length ads" and m: "maxItems (options c1) \<noteq> 0" and t: "ttl (options c1) \<noteq> 0"
      and g: "fst (get c1 (nowGet e2) host) = (ads, True)"
      and lo: "0 \<le> Intn e2 (int (length ads))"
      and hi: "Intn e2 (int (length ads)) < int (length ads)"
  proof -
    have ne: "ads \<noteq> []" using n by auto
    have "lookup e2 c1 host = (Inr (ads, None), c1, [])"
      using lookup_hit [OF m t g] ne by simp
    from DialContext_resolved [OF this, of network] n ne lo hi show ?thesis by simp
  qed
  show ?thesis using one many later by blast
qed

lemma lookup_single_first:
  "lookup (testEnv (testResolver [''127.0.0.1''] None) 0 k i) (New [WithTTL 3600]) ''testing123''
   = (Inr ([''127.0.0.1''], None),
      (New [WithTTL 3600])\<lparr>entries :=
         Some (fmupd ''testing123'' \<lparr>expires = 3600, addrs = [''127.0.0.1'']\<rparr> fmempty)\<rparr>,
      [LookupHostCall ''testing123''])"
  unfolding New_3600
  by (simp add: lookup_def get_def set_return_def set_cache_def Let_def testEnv_def
      testResolver_def fcard_finsert_if fcard_fempty)

theorem dial_selects_per_call_witness:
  "lookup (testEnv (testResolver testAddrs None) 0 ''a'' 2) (New [WithTTL 3600]) ''testing123''
     = (Inr (testAddrs, None), multi_cache, [LookupHostCall ''testing123''])
   \<and> DialContext (testEnv (testResolver testAddrs None) 0 ''a'' 2) (New [WithTTL 3600])
        ''tcp'' ''testing123''
     = (Inr (Some ''127.0.0.3'', None), multi_cache,
        [LookupHostCall ''testing123'', DialContextCall ''tcp'' ''127.0.0.3''])
   \<and> DialContext (testEnv (testResolver testAddrs None) 1 ''a'' 0) multi_cache
        ''tcp'' ''testing123''
     = (Inr (Some ''127.0.0.1'', None), multi_cache, [DialContextCall ''tcp'' ''127.0.0.1''])
   \<and> fst (DialContext (testEnv (testResolver [''127.0.0.1''] None) 0 ''a'' 7)
          (New [WithTTL 3600]) ''tcp'' ''testing123'')
     = Inr (Some ''127.0.0.1'', None)"
proof -
  have n: "length testAddrs = 4" by (simp add: testAddrs_def)
  have o: "maxItems (options multi_cache) \<noteq> 0 \<and> ttl (options multi_cache) \<noteq> 0"
    by (simp add: multi_cache_def)
  have g: "fst (get multi_cache
             (nowGet (testEnv (testResolver testAddrs None) 1 ''a'' 0)) ''testing123'')
           = (testAddrs, True)"
    using get_multi by (simp add: testEnv_def)
  have i2: "Intn (testEnv (testResolver testAddrs None) 0 ''a'' 2) 4 = 2"
    and i0: "Intn (testEnv (testResolver testAddrs None) 1 ''a'' 0) 4 = 0"
    by (simp_all add: testEnv_def)
  have a: "testAddrs ! 2 = ''127.0.0.3''" "testAddrs ! 0 = ''127.0.0.1''"
    by (simp_all add: testAddrs_def)
  have d: "dialerDialContext (testEnv (testResolver testAddrs None) 0 ''a'' 2) = testDialer"
     "dialerDialContext (testEnv (testResolver testAddrs None) 1 ''a'' 0) = testDialer"
     "dialerDialContext (testEnv (testResolver [''127.0.0.1''] None) 0 ''a'' 7) = testDialer"
    by (simp_all add: testEnv_def)
  have u: "(testEnv (testResolver [''127.0.0.1''] None) 0 ''a'' 7)
             \<lparr>Intn := Intn (testEnv (testResolver [''127.0.0.1''] None) 0 ''a'' 7)\<rparr>
           = testEnv (testResolver [''127.0.0.1''] None) 0 ''a'' 7"
    by simp
  have many: "DialContext (testEnv (testResolver testAddrs None) 0 ''a'' 2) (New [WithTTL 3600])
        ''tcp'' ''testing123''
     = (Inr (Some ''127.0.0.3'', None), multi_cache,
        [LookupHostCall ''testing123'', DialContextCall ''tcp'' ''127.0.0.3''])
   \<and> DialContext (testEnv (testResolver testAddrs None) 1 ''a'' 0) multi_cache
        ''tcp'' ''testing123''
     = (Inr (Some ''127.0.0.1'', None), multi_cache, [DialContextCall ''tcp'' ''127.0.0.1''])"
    using dial_selects_per_call [OF lookup_multi_first [of "''a''" 2],
        of "Intn (testEnv (testResolver testAddrs None) 0 ''a'' 2)" "''tcp''"
           "testEnv (testResolver testAddrs None) 1 ''a'' 0"]
      n o g i2 i0 a d
    by (simp add: testDialer_def)
  have one: "fst (DialContext (testEnv (testResolver [''127.0.0.1''] None) 0 ''a'' 7)
          (New [WithTTL 3600]) ''tcp'' ''testing123'')
     = Inr (Some ''127.0.0.1'', None)"
    using dial_selects_per_call [OF lookup_single_first [of "''a''" 7],
        of "Intn (testEnv (testResolver [''127.0.0.1''] None) 0 ''a'' 7)" "''tcp''"
           "testEnv (testResolver testAddrs None) 1 ''a'' 0"]
      d(3)
    by (simp add: u testDialer_def)
  show ?thesis using lookup_multi_first [of "''a''" 2] many one by simp
qed

text \<open>
  C8, as the code has it. After a resolution without error the cache that
  \<^verbatim>\<open>DialContext\<close> leaves is the cache that the lookup left, whatever the dialer
  answers; and when the resolution gave at least one address (and \<^verbatim>\<open>rand.Intn\<close>
  answers within its range), one of the resolved addresses is dialed and the dialer's
  answer, connection or error, is returned as it is.
\<close>

theorem dial_result_verbatim:
  assumes l: "lookup e c host = (Inr (ads, None), c1, calls)"
  shows "fst (snd (DialContext (e\<lparr>dialerDialContext := d\<rparr>) c network host)) = c1
       \<and> (ads \<noteq> [] \<and>
          (1 < length ads \<longrightarrow>
             0 \<le> Intn e (int (length ads)) \<and> Intn e (int (length ads)) < int (length ads)) \<longrightarrow>
          (\<exists>a. a \<in> set ads \<and>
               DialContext (e\<lparr>dialerDialContext := d\<rparr>) c network host =
                 (Inr (d network a), c1, calls @ [DialContextCall network a])))"
proof -
  have l1: "lookup (e\<lparr>dialerDialContext := d\<rparr>) c host = (Inr (ads, None), c1, calls)"
    using l by (simp add: lookup_dialer)
  note dc = DialContext_resolved [OF l1, of network]
  have frame: "fst (snd (DialContext (e\<lparr>dialerDialContext := d\<rparr>) c network host)) = c1"
    unfolding dc by simp
  have dialed: "\<exists>a. a \<in> set ads \<and>
               DialContext (e\<lparr>dialerDialContext := d\<rparr>) c network host =
                 (Inr (d network a), c1, calls @ [DialContextCall network a])"
    if ne: "ads \<noteq> []"
      and rnd: "1 < length ads \<longrightarrow>
             0 \<le> Intn e (int (length ads)) \<and> Intn e (int (length ads)) < int (length ads)"
  proof (cases "length ads = 1")
    case True
    then have "ads ! 0 \<in> set ads" by (cases ads) auto
    moreover have "DialContext (e\<lparr>dialerDialContext := d\<rparr>) c network host =
        (Inr (d network (ads ! 0)), c1, calls @ [DialContextCall network (ads ! 0)])"
      unfolding dc using True by simp
    ultimately show ?thesis by blast
  next
    case False
    then have n: "1 < length ads" using ne by (cases ads) auto
    then have lo: "0 \<le> Intn e (int (length ads))"
      and hi: "Intn e (int (length ads)) < int (length ads)" using rnd by auto
    have "nat (Intn e (int (length ads))) < length ads" using lo hi by linarith
    then have "ads ! nat (Intn e (int (length ads))) \<in> set ads" by (rule nth_mem)
    moreover have "DialContext (e\<lparr>dialerDialContext := d\<rparr>) c network host =
        (Inr (d network (ads ! nat (Intn e (int (length ads))))), c1,
         calls @ [DialContextCall network (ads ! nat (Intn e (int (length ads))))])"
      unfolding dc using False ne lo hi by simp
    ultimately show ?thesis by blast
  qed
  show ?thesis using frame dialed by blast
qed

theorem dial_result_verbatim_witness:
  "lookup (testEnv (testResolver testAddrs None) 1 ''a'' 3) multi_cache ''testing123''
     = (Inr (testAddrs, None), multi_cache, [])
   \<and> DialContext ((testEnv (testResolver testAddrs None) 1 ''a'' 3)
         \<lparr>dialerDialContext := refusingDialer\<rparr>) multi_cache ''tcp'' ''testing123''
     = (Inr (None, Some (foreignError ''connection refused'')), multi_cache,
        [DialContextCall ''tcp'' ''127.0.0.4''])"
proof -
  let ?E = "testEnv (testResolver testAddrs None) 1 ''a'' 3"
  have o: "maxItems (options multi_cache) \<noteq> 0" "ttl (options multi_cache) \<noteq> 0"
    by (simp_all add: multi_cache_def)
  have g: "fst (get multi_cache (nowGet ?E) ''testing123'') = (testAddrs, True)"
    using get_multi by (simp add: testEnv_def)
  have ne: "testAddrs \<noteq> []" and n: "length testAddrs = 4" and a: "testAddrs ! 3 = ''127.0.0.4''"
    by (simp_all add: testAddrs_def)
  have l: "lookup ?E multi_cache ''testing123'' = (Inr (testAddrs, None), multi_cache, [])"
    using lookup_hit [OF o g] ne by simp
  have l1: "lookup (?E\<lparr>dialerDialContext := refusingDialer\<rparr>) multi_cache ''testing123''
      = (Inr (testAddrs, None), multi_cache, [])"
    using l by (simp only: lookup_dialer)
  have i: "Intn (?E\<lparr>dialerDialContext := refusingDialer\<rparr>) 4 = 3"
    by (simp add: testEnv_def)
  have dc: "DialContext (?E\<lparr>dialerDialContext := refusingDialer\<rparr>) multi_cache
      ''tcp'' ''testing123''
     = (Inr (refusingDialer ''tcp'' ''127.0.0.4''), multi_cache,
        [DialContextCall ''tcp'' ''127.0.0.4''])"
    using DialContext_resolved [OF l1, of "''tcp''"] n ne i a by simp
  show ?thesis
    using dial_result_verbatim [OF l, of refusingDialer "''tcp''"] l dc
    by (simp add: refusingDialer_def)
qed

text \<open>
  C8 as stated fails. With \<^verbatim>\<open>ttl == 0\<close> the resolver's answer of no addresses and
  no error is a resolution without error, and \<^verbatim>\<open>DialContext\<close> then returns
  nothing of the dialer: the dialer is not called, and the call ends in the panic of
  \<^verbatim>\<open>rand.Intn(0)\<close>.
\<close>

theorem dial_without_address_counterexample:
  "lookup (testEnv (testResolver [] None) 0 ''a'' 0) (New [WithTTL 0]) ''testing123''
     = (Inr ([], None), New [WithTTL 0], [LookupHostCall ''testing123''])
   \<and> DialContext (testEnv (testResolver [] None) 0 ''a'' 0) (New [WithTTL 0])
        ''tcp'' ''testing123''
     = (Inl intnInvalidArgument, New [WithTTL 0], [LookupHostCall ''testing123''])"
proof -
  have "ttl (options (New [WithTTL 0])) = 0"
    by (simp add: New_options WithTTL_def)
  then have "maxItems (options (New [WithTTL 0])) = 0 \<or> ttl (options (New [WithTTL 0])) = 0"
    by simp
  from lookup_disabled [OF this, of "testEnv (testResolver [] None) 0 ''a'' 0" "''testing123''"]
  have l: "lookup (testEnv (testResolver [] None) 0 ''a'' 0) (New [WithTTL 0]) ''testing123''
     = (Inr ([], None), New [WithTTL 0], [LookupHostCall ''testing123''])"
    by (simp add: testEnv_def testResolver_def)
  from DialContext_resolved [OF l, of "''tcp''"] l show ?thesis by simp
qed

text \<open>
  C1 (the code departs from it). A resolver error that does not mention
  \<open>no such host\<close> is not returned: the lookup falls through to the length check,
  stores an empty entry and returns \<^verbatim>\<open>errNoSuchHost\<close>.
\<close>

theorem lookup_transient_error_cached:
  "lookup (testEnv (testResolver [] (Some (foreignError ''i/o timeout''))) 0 ''a'' 0)
     (New [WithTTL 3600]) ''testing123''
   = (Inr ([], Some errNoSuchHost),
      (New [WithTTL 3600])\<lparr>entries :=
         Some (fmupd ''testing123'' \<lparr>expires = 3600, addrs = []\<rparr> fmempty)\<rparr>,
      [LookupHostCall ''testing123''])"
  unfolding New_3600
  by (simp add: lookup_def get_def set_return_def set_cache_def Let_def testEnv_def
      testResolver_def fcard_finsert_if fcard_fempty noSuchHost_def)

section \<open>Caches made by lookups\<close>

lemma set_return_cache:
  "fst (snd (set_return e c name ads res calls)) = c \<or>
   set_cache c (nowSet e) (rangeKey e) name ads
     = Inr (fst (snd (set_return e c name ads res calls)))"
  by (auto simp: set_return_def split: sum.splits)

lemma lookup_cache_cases:
  "fst (snd (lookup e c name)) = c \<or>
   (\<exists>ads. set_cache c (nowSet e) (rangeKey e) name ads = Inr (fst (snd (lookup e c name)))
          \<and> (ParseIP e name \<longrightarrow> ads = [name]))"
proof (cases "maxItems (options c) = 0 \<or> ttl (options c) = 0")
  case True
  then show ?thesis by (simp add: lookup_disabled)
next
  case False
  then have m: "maxItems (options c) \<noteq> 0" and t: "ttl (options c) \<noteq> 0" by auto
  show ?thesis
  proof (cases "snd (fst (get c (nowGet e) name))")
    case True
    then obtain xs where "fst (get c (nowGet e) name) = (xs, True)"
      by (cases "fst (get c (nowGet e) name)") auto
    from lookup_hit [OF m t this] show ?thesis by simp
  next
    case miss: False
    show ?thesis
    proof (cases "ParseIP e name")
      case True
      show ?thesis
        using set_return_cache [of e c name "[name]" "([name], None)" "[]"]
        by (auto simp: lookup_miss_ip [OF m t miss True])
    next
      case False
      obtain xs err where r: "resolverLookupHost e name = (xs, err)"
        by (cases "resolverLookupHost e name") auto
      show ?thesis
        using set_return_cache [of e c name "[]" "([], Some errNoSuchHost)" "[LookupHostCall name]"]
          set_return_cache [of e c name xs "(xs, None)" "[LookupHostCall name]"] False
        by (auto simp: lookup_miss_resolve [OF m t miss False r])
    qed
  qed
qed

lemma set_cache_lookup:
  assumes s: "set_cache c now k name ads = Inr c1" and e1: "entries c1 = Some m1"
    and f: "fmlookup m1 h = Some r"
  shows "(h = name \<and> r = \<lparr>expires = now + ttl (options c), addrs = ads\<rparr>) \<or>
         (\<exists>m. entries c = Some m \<and> fmlookup m h = Some r)"
proof -
  from s obtain m where m: "entries c = Some m"
    by (auto simp: set_cache_def Let_def split: option.splits)
  let ?m1 = "fmupd name \<lparr>expires = now + ttl (options c), addrs = ads\<rparr> m"
  have "m1 = fmdrop k ?m1 \<or> m1 = ?m1"
    using s e1 by (auto simp: set_cache_Some [OF m] Let_def split: if_splits)
  then have "fmlookup ?m1 h = Some r" using f by (auto split: if_splits)
  then show ?thesis using m by (auto split: if_splits)
qed

lemma served_reachable: "served P c \<Longrightarrow> reachable c"
proof (induction rule: served.induct)
  case (served_New P opts)
  show ?case by (rule reachable_New)
next
  case (served_lookup P c e name c1)
  from lookup_cache_cases [of e c name] served_lookup.hyps(4)
  consider "c1 = c" | ads where "set_cache c (nowSet e) (rangeKey e) name ads = Inr c1"
    by auto
  then show ?case
  proof cases
    case 1
    then show ?thesis using served_lookup.IH by simp
  next
    case 2
    from reachable_set [OF served_lookup.IH served_lookup.hyps(3) 2] show ?thesis .
  qed
qed

lemma served_ip_entries:
  "served P c \<Longrightarrow> entries c = Some m \<Longrightarrow> fmlookup m h = Some r \<Longrightarrow> P h \<Longrightarrow> addrs r = [h]"
proof (induction arbitrary: m rule: served.induct)
  case (served_New P opts)
  then show ?case using New_entries [of opts] by (auto split: if_splits)
next
  case (served_lookup P c e name c1)
  from lookup_cache_cases [of e c name] served_lookup.hyps(4)
  consider "c1 = c"
    | ads where "set_cache c (nowSet e) (rangeKey e) name ads = Inr c1"
        and "ParseIP e name \<longrightarrow> ads = [name]"
    by auto
  then show ?case
  proof cases
    case 1
    then show ?thesis using served_lookup.IH served_lookup.prems by simp
  next
    case 2
    from set_cache_lookup [OF 2(1) served_lookup.prems(1) served_lookup.prems(2)]
    show ?thesis
    proof
      assume "h = name \<and> r = \<lparr>expires = nowSet e + ttl (options c), addrs = ads\<rparr>"
      then show ?thesis using 2(2) served_lookup.hyps(2) served_lookup.prems(3) by auto
    next
      assume "\<exists>m. entries c = Some m \<and> fmlookup m h = Some r"
      then show ?thesis using served_lookup.IH served_lookup.prems(3) by blast
    qed
  qed
qed

lemma get_True:
  assumes "fst (get c now key) = (ads, True)"
  shows "\<exists>m r. entries c = Some m \<and> fmlookup m key = Some r \<and> now < expires r \<and> ads = addrs r"
  using assms by (auto simp: get_def split: option.splits if_splits)

lemma get_live:
  assumes "entries c = Some m" and "fmlookup m key = Some r" and "now < expires r"
  shows "fst (get c now key) = (addrs r, True)"
  using assms by (simp add: get_def)

section \<open>Negative results\<close>

text \<open>
  C2, as the code has it. On a reachable cache with \<^verbatim>\<open>maxItems > 0\<close> and
  \<^verbatim>\<open>ttl != 0\<close>, for a host that is not an IP literal and has no live entry: when
  the resolver answers with an error that mentions \<open>no such host\<close>, or with no
  addresses and no error, \<^verbatim>\<open>DialContext\<close> returns \<^verbatim>\<open>errNoSuchHost\<close> after one
  resolver call and leaves the cache that \<^verbatim>\<open>set(name, nil)\<close> leaves, whatever the
  eviction does. When moreover the eviction of \<^verbatim>\<open>set\<close> (if the store is over
  capacity) does not pick the host itself, the store holds an empty entry for the host,
  and a second call before that entry expires returns \<^verbatim>\<open>errNoSuchHost\<close> with no
  call to the resolver. The outcome is the same for the two kinds of answer.
\<close>

theorem negative_result_cached:
  assumes r: "reachable c" and pos: "0 < maxItems (options c)" and t: "ttl (options c) \<noteq> 0"
    and miss: "\<not> snd (fst (get c (nowGet e) name))" and nip: "\<not> ParseIP e name"
    and nf: "(\<exists>ads er. resolverLookupHost e name = (ads, Some er) \<and>
                       Contains (Error er) noSuchHost)
             \<or> resolverLookupHost e name = ([], None)"
  shows "\<exists>c1. set_cache c (nowSet e) (rangeKey e) name [] = Inr c1
           \<and> DialContext e c network name =
               (Inr (None, Some errNoSuchHost), c1, [LookupHostCall name])
           \<and> ((maxItems (options c) < int (fcard (finsert name (keys c))) \<longrightarrow>
                  rangeKey e \<noteq> name) \<longrightarrow>
                (\<exists>m1. entries c1 = Some m1 \<and>
                   fmlookup m1 name =
                     Some \<lparr>expires = nowSet e + ttl (options c), addrs = []\<rparr>)
                \<and> (nowGet e2 < nowSet e + ttl (options c) \<longrightarrow>
                     DialContext e2 c1 network name =
                       (Inr (None, Some errNoSuchHost), c1, [])))"
proof -
  from reachable_inv [OF r] pos obtain m where m: "entries c = Some m" by auto
  have km: "keys c = fmdom m" using m by (simp add: keys_def)
  have mi: "maxItems (options c) \<noteq> 0" using pos by simp
  let ?r = "\<lparr>expires = nowSet e + ttl (options c), addrs = []\<rparr>"
  let ?m' = "fmupd name ?r m"
  define m1 where "m1 = (if int (fcard (fmdom ?m')) > maxItems (options c)
                         then fmdrop (rangeKey e) ?m' else ?m')"
  define c1 where "c1 = c\<lparr>entries := Some m1\<rparr>"
  have s: "set_cache c (nowSet e) (rangeKey e) name [] = Inr c1"
    using set_cache_Some [OF m, of "nowSet e" "rangeKey e" name "[]"]
    by (simp add: c1_def m1_def Let_def)
  obtain xs err where res: "resolverLookupHost e name = (xs, err)"
    by (cases "resolverLookupHost e name") auto
  have cond: "(\<exists>er. err = Some er \<and> Contains (Error er) noSuchHost) \<or> xs = []"
    using nf res by auto
  have "lookup e c name = set_return e c name [] ([], Some errNoSuchHost) [LookupHostCall name]"
    by (simp only: lookup_miss_resolve [OF mi t miss nip res] if_P [OF cond])
  then have l: "lookup e c name = (Inr ([], Some errNoSuchHost), c1, [LookupHostCall name])"
    using s by (simp add: set_return_def)
  have d1: "DialContext e c network name =
               (Inr (None, Some errNoSuchHost), c1, [LookupHostCall name])"
    using DialContext_unresolved [OF l] .
  have e1: "entries c1 = Some m1" by (simp add: c1_def)
  have o: "options c1 = options c" by (simp add: c1_def)
  have kept: "(\<exists>m1. entries c1 = Some m1 \<and> fmlookup m1 name = Some ?r)
                \<and> (nowGet e2 < nowSet e + ttl (options c) \<longrightarrow>
                     DialContext e2 c1 network name =
                       (Inr (None, Some errNoSuchHost), c1, []))"
    if keep: "maxItems (options c) < int (fcard (finsert name (keys c))) \<longrightarrow>
                 rangeKey e \<noteq> name"
  proof -
    have f: "fmlookup m1 name = Some ?r"
      using keep km by (auto simp: m1_def)
    have d2: "DialContext e2 c1 network name = (Inr (None, Some errNoSuchHost), c1, [])"
      if within: "nowGet e2 < nowSet e + ttl (options c)"
    proof -
      have g: "fst (get c1 (nowGet e2) name) = ([], True)"
        using get_live [OF e1 f, of "nowGet e2"] within by simp
      have "lookup e2 c1 name = (Inr ([], Some errNoSuchHost), c1, [])"
        using lookup_hit [of c1 e2 name "[]"] g mi t o by simp
      from DialContext_unresolved [OF this] show ?thesis .
    qed
    show ?thesis using e1 f d2 by blast
  qed
  show ?thesis using s d1 kept by blast
qed

lemma New_60: "New [WithTTL 60] = \<lparr>options = \<lparr>ttl = 60, maxItems = 1024\<rparr>, entries = Some fmempty\<rparr>"
  by (simp add: New_def Let_def WithTTL_def defaultOptions_def)

theorem negative_result_cached_witness:
  "reachable (New [WithTTL 60])
   \<and> DialContext (testEnv (testResolver [] (Some (foreignError ''no such host''))) 0 ''a'' 0)
        (New [WithTTL 60]) ''tcp'' ''testing123''
      = (Inr (None, Some errNoSuchHost),
         (New [WithTTL 60])\<lparr>entries :=
            Some (fmupd ''testing123'' \<lparr>expires = 60, addrs = []\<rparr> fmempty)\<rparr>,
         [LookupHostCall ''testing123''])
   \<and> DialContext (testEnv (testResolver [] None) 59 ''a'' 0)
        ((New [WithTTL 60])\<lparr>entries :=
            Some (fmupd ''testing123'' \<lparr>expires = 60, addrs = []\<rparr> fmempty)\<rparr>)
        ''tcp'' ''testing123''
      = (Inr (None, Some errNoSuchHost),
         (New [WithTTL 60])\<lparr>entries :=
            Some (fmupd ''testing123'' \<lparr>expires = 60, addrs = []\<rparr> fmempty)\<rparr>,
         [])
   \<and> reachable full_cache
   \<and> DialContext (testEnv (testResolver [] None) 1 ''b'' 0) full_cache ''tcp'' ''b''
      = (Inr (None, Some errNoSuchHost), full_cache, [LookupHostCall ''b''])"
proof -
  let ?e = "testEnv (testResolver [] (Some (foreignError ''no such host''))) 0 ''a'' 0"
  let ?e2 = "testEnv (testResolver [] None) 59 ''a'' 0"
  let ?c = "New [WithTTL 60]"
  let ?eb = "testEnv (testResolver [] None) 1 ''b'' 0"
  have pos: "0 < maxItems (options ?c)" and t: "ttl (options ?c) \<noteq> 0"
    by (simp_all add: New_60)
  have miss: "\<not> snd (fst (get ?c (nowGet ?e) ''testing123''))"
    by (simp add: New_60 get_def)
  have nip: "\<not> ParseIP ?e ''testing123''" by (simp add: testEnv_def)
  have nf: "(\<exists>ads er. resolverLookupHost ?e ''testing123'' = (ads, Some er) \<and>
                       Contains (Error er) noSuchHost)
             \<or> resolverLookupHost ?e ''testing123'' = ([], None)"
    by (simp add: testEnv_def testResolver_def noSuchHost_def)
  have keep: "maxItems (options ?c) < int (fcard (finsert ''testing123'' (keys ?c))) \<longrightarrow>
                 rangeKey ?e \<noteq> ''testing123''"
    by (simp add: testEnv_def)
  have within: "nowGet ?e2 < nowSet ?e + ttl (options ?c)"
    by (simp add: testEnv_def New_60)
  have s: "set_cache ?c (nowSet ?e) (rangeKey ?e) ''testing123'' [] =
      Inr (?c\<lparr>entries := Some (fmupd ''testing123'' \<lparr>expires = 60, addrs = []\<rparr> fmempty)\<rparr>)"
    by (simp add: New_60 set_cache_def Let_def testEnv_def fcard_finsert_if fcard_fempty)
  have first: "DialContext ?e ?c ''tcp'' ''testing123''
      = (Inr (None, Some errNoSuchHost),
         ?c\<lparr>entries := Some (fmupd ''testing123'' \<lparr>expires = 60, addrs = []\<rparr> fmempty)\<rparr>,
         [LookupHostCall ''testing123''])
     \<and> DialContext ?e2
        (?c\<lparr>entries := Some (fmupd ''testing123'' \<lparr>expires = 60, addrs = []\<rparr> fmempty)\<rparr>)
        ''tcp'' ''testing123''
      = (Inr (None, Some errNoSuchHost),
         ?c\<lparr>entries := Some (fmupd ''testing123'' \<lparr>expires = 60, addrs = []\<rparr> fmempty)\<rparr>,
         [])"
    using negative_result_cached [OF reachable_New pos t miss nip nf, of "''tcp''" ?e2]
      keep within s
    by auto
  have posb: "0 < maxItems (options full_cache)" and tb: "ttl (options full_cache) \<noteq> 0"
    by (simp_all add: full_cache_def)
  have missb: "\<not> snd (fst (get full_cache (nowGet ?eb) ''b''))"
    by (simp add: full_cache_def get_def)
  have nipb: "\<not> ParseIP ?eb ''b''" by (simp add: testEnv_def)
  have nfb: "(\<exists>ads er. resolverLookupHost ?eb ''b'' = (ads, Some er) \<and>
                       Contains (Error er) noSuchHost)
             \<or> resolverLookupHost ?eb ''b'' = ([], None)"
    by (simp add: testEnv_def testResolver_def)
  have sb: "set_cache full_cache (nowSet ?eb) (rangeKey ?eb) ''b'' [] = Inr full_cache"
    by (simp add: full_cache_def set_cache_def Let_def testEnv_def fcard_finsert_if
        fcard_fempty fmdrop_fmupd)
  have evicted: "DialContext ?eb full_cache ''tcp'' ''b''
      = (Inr (None, Some errNoSuchHost), full_cache, [LookupHostCall ''b''])"
    using negative_result_cached [OF full_cache_reachable posb tb missb nipb nfb,
        of "''tcp''" ?eb] sb
    by auto
  show ?thesis
    using first evicted reachable_New [of "[WithTTL 60]"] full_cache_reachable by simp
qed

lemma full_cache_made:
  "DialContext (testEnv (testResolver [''10.0.0.1''] None) 0 ''a'' 0)
     (New [WithTTL 60, WithMaxItems 1]) ''tcp'' ''a''
   = (Inr (Some ''10.0.0.1'', None), full_cache,
      [LookupHostCall ''a'', DialContextCall ''tcp'' ''10.0.0.1''])"
  unfolding New_example
  by (simp add: DialContext_def lookup_def get_def set_return_def set_cache_def Let_def
      testEnv_def testResolver_def testDialer_def fcard_finsert_if fcard_fempty full_cache_def)

lemma lookup_full_cache_b:
  "lookup (testEnv (testResolver [] (Some (foreignError ''no such host''))) now ''b'' 0)
     full_cache ''b''
   = (Inr ([], Some errNoSuchHost), full_cache, [LookupHostCall ''b''])"
  by (simp add: lookup_def get_def set_return_def set_cache_def Let_def
      testEnv_def testResolver_def fcard_finsert_if fcard_fempty full_cache_def
      noSuchHost_def fmdrop_fmupd)

text \<open>
  C2 as stated fails. The cache of capacity one holds \<open>a\<close> (it is the cache that
  dialing \<open>a\<close> leaves). Resolving \<open>b\<close> gets a not-found error and returns
  \<^verbatim>\<open>errNoSuchHost\<close>, but the eviction visits \<open>b\<close> itself, so no entry for \<open>b\<close>
  is left, and the second call, one tick later, calls the resolver again.
\<close>

theorem negative_result_evicted_counterexample:
  "fst (snd (DialContext (testEnv (testResolver [''10.0.0.1''] None) 0 ''a'' 0)
               (New [WithTTL 60, WithMaxItems 1]) ''tcp'' ''a'')) = full_cache
   \<and> ttl (options full_cache) \<noteq> 0 \<and> maxItems (options full_cache) \<noteq> 0
   \<and> DialContext (testEnv (testResolver [] (Some (foreignError ''no such host''))) 1 ''b'' 0)
        full_cache ''tcp'' ''b''
      = (Inr (None, Some errNoSuchHost), full_cache, [LookupHostCall ''b''])
   \<and> fst (get full_cache 2 ''b'') = ([], False)
   \<and> DialContext (testEnv (testResolver [] (Some (foreignError ''no such host''))) 2 ''b'' 0)
        full_cache ''tcp'' ''b''
      = (Inr (None, Some errNoSuchHost), full_cache, [LookupHostCall ''b''])"
proof -
  have "ttl (options full_cache) \<noteq> 0 \<and> maxItems (options full_cache) \<noteq> 0"
    by (simp add: full_cache_def)
  moreover have "fst (get full_cache 2 ''b'') = ([], False)"
    by (simp add: get_def full_cache_def)
  ultimately show ?thesis
    using full_cache_made DialContext_unresolved [OF lookup_full_cache_b [of 1], of "''tcp''"]
      DialContext_unresolved [OF lookup_full_cache_b [of 2], of "''tcp''"]
    by simp
qed


section \<open>IP literals\<close>

text \<open>
  C6, as the code has it. On a cache made by \<^verbatim>\<open>New\<close> and lookups, with
  \<^verbatim>\<open>maxItems > 0\<close> and \<^verbatim>\<open>ttl != 0\<close>, \<^verbatim>\<open>DialContext\<close> of an IP literal dials
  the literal and makes no call to the resolver. On a hit the cache is left as it was;
  on a miss the lookup returns \<open>[host]\<close> and the cache is the one that
  \<^verbatim>\<open>set(host, [host])\<close> leaves, which holds \<open>[host]\<close> under \<open>host\<close> unless the
  eviction of \<^verbatim>\<open>set\<close> picks the host itself.
\<close>

theorem ip_literal_dialed_directly:
  assumes s: "served (ParseIP e) c" and pos: "0 < maxItems (options c)"
    and t: "ttl (options c) \<noteq> 0" and ip: "ParseIP e host"
  shows "\<exists>c1. DialContext e c network host =
               (Inr (dialerDialContext e network host), c1, [DialContextCall network host])
          \<and> (if snd (fst (get c (nowGet e) host))
              then c1 = c \<and> lookup e c host = (Inr ([host], None), c, [])
              else lookup e c host = (Inr ([host], None), c1, [])
                 \<and> set_cache c (nowSet e) (rangeKey e) host [host] = Inr c1
                 \<and> ((maxItems (options c) < int (fcard (finsert host (keys c))) \<longrightarrow>
                       rangeKey e \<noteq> host) \<longrightarrow>
                     (\<exists>m1. entries c1 = Some m1 \<and>
                        fmlookup m1 host =
                          Some \<lparr>expires = nowSet e + ttl (options c), addrs = [host]\<rparr>)))"
proof -
  have mi: "maxItems (options c) \<noteq> 0" using pos by simp
  show ?thesis
  proof (cases "snd (fst (get c (nowGet e) host))")
    case True
    then obtain xs where g: "fst (get c (nowGet e) host) = (xs, True)"
      by (cases "fst (get c (nowGet e) host)") auto
    from get_True [OF g] obtain m r where "entries c = Some m" "fmlookup m host = Some r"
      "xs = addrs r" by auto
    then have "xs = [host]" using served_ip_entries [OF s _ _ ip] by simp
    then have l: "lookup e c host = (Inr ([host], None), c, [])"
      using lookup_hit [OF mi t g] by simp
    from DialContext_resolved [OF l, of network]
    have "DialContext e c network host =
               (Inr (dialerDialContext e network host), c, [DialContextCall network host])"
      by simp
    then show ?thesis using True l by simp
  next
    case miss: False
    from reachable_inv [OF served_reachable [OF s]] pos obtain m where m: "entries c = Some m"
      by auto
    have km: "keys c = fmdom m" using m by (simp add: keys_def)
    let ?r = "\<lparr>expires = nowSet e + ttl (options c), addrs = [host]\<rparr>"
    let ?m' = "fmupd host ?r m"
    define m1 where "m1 = (if int (fcard (fmdom ?m')) > maxItems (options c)
                           then fmdrop (rangeKey e) ?m' else ?m')"
    define c1 where "c1 = c\<lparr>entries := Some m1\<rparr>"
    have sc: "set_cache c (nowSet e) (rangeKey e) host [host] = Inr c1"
      using set_cache_Some [OF m, of "nowSet e" "rangeKey e" host "[host]"]
      by (simp add: c1_def m1_def Let_def)
    have l: "lookup e c host = (Inr ([host], None), c1, [])"
      using lookup_miss_ip [OF mi t miss ip] sc by (simp add: set_return_def)
    from DialContext_resolved [OF l, of network]
    have d: "DialContext e c network host =
               (Inr (dialerDialContext e network host), c1, [DialContextCall network host])"
      by simp
    have f: "\<exists>m1. entries c1 = Some m1 \<and> fmlookup m1 host = Some ?r"
      if "maxItems (options c) < int (fcard (finsert host (keys c))) \<longrightarrow> rangeKey e \<noteq> host"
      using that km by (auto simp: c1_def m1_def)
    show ?thesis using miss d l sc f by auto
  qed
qed

theorem ip_literal_dialed_directly_witness:
  "served (\<lambda>h. h = ''127.0.0.1'') (New [WithTTL 60])
   \<and> DialContext (testEnv (testResolver [''10.0.0.1''] None) 0 ''a'' 0) (New [WithTTL 60])
        ''tcp'' ''127.0.0.1''
      = (Inr (Some ''127.0.0.1'', None),
         (New [WithTTL 60])\<lparr>entries :=
            Some (fmupd ''127.0.0.1'' \<lparr>expires = 60, addrs = [''127.0.0.1'']\<rparr> fmempty)\<rparr>,
         [DialContextCall ''tcp'' ''127.0.0.1''])"
proof -
  let ?e = "testEnv (testResolver [''10.0.0.1''] None) 0 ''a'' 0"
  let ?c = "New [WithTTL 60]"
  have p: "ParseIP ?e = (\<lambda>h. h = ''127.0.0.1'')" by (simp add: testEnv_def)
  have s: "served (ParseIP ?e) ?c" by (rule served_New)
  have pos: "0 < maxItems (options ?c)" and t: "ttl (options ?c) \<noteq> 0"
    by (simp_all add: New_60)
  have ip: "ParseIP ?e ''127.0.0.1''" by (simp add: testEnv_def)
  have miss: "\<not> snd (fst (get ?c (nowGet ?e) ''127.0.0.1''))"
    by (simp add: New_60 get_def)
  have sc: "set_cache ?c (nowSet ?e) (rangeKey ?e) ''127.0.0.1'' [''127.0.0.1''] =
      Inr (?c\<lparr>entries :=
            Some (fmupd ''127.0.0.1'' \<lparr>expires = 60, addrs = [''127.0.0.1'']\<rparr> fmempty)\<rparr>)"
    by (simp add: New_60 set_cache_def Let_def testEnv_def fcard_finsert_if fcard_fempty)
  have d: "dialerDialContext ?e ''tcp'' ''127.0.0.1'' = (Some ''127.0.0.1'', None)"
    by (simp add: testEnv_def testDialer_def)
  show ?thesis
    using ip_literal_dialed_directly [OF s pos t ip, of "''tcp''"] s p miss sc d
    by auto
qed

text \<open>
  C6 as stated fails: with \<^verbatim>\<open>ttl == 0\<close> the lookup of an IP literal goes to the
  resolver, and the address that the resolver answers is dialed.
\<close>

theorem ip_literal_resolved_counterexample:
  "ParseIP (testEnv (testResolver [''10.0.0.1''] None) 0 ''a'' 0) ''127.0.0.1''
   \<and> DialContext (testEnv (testResolver [''10.0.0.1''] None) 0 ''a'' 0) (New [WithTTL 0])
        ''tcp'' ''127.0.0.1''
      = (Inr (Some ''10.0.0.1'', None), New [WithTTL 0],
         [LookupHostCall ''127.0.0.1'', DialContextCall ''tcp'' ''10.0.0.1''])"
proof -
  have "options (New [WithTTL 0]) = \<lparr>ttl = 0, maxItems = 1024\<rparr>"
    by (simp add: New_options WithTTL_def defaultOptions_def)
  then show ?thesis
    by (simp add: DialContext_def lookup_def testEnv_def testResolver_def testDialer_def)
qed

end
